theory Spec2Isabelle
  imports Main "HOL-Library.Char_ord" "HOL-Library.List_Lexorder" "HOL-Library.Multiset"
    "HOL-Library.Log_Nat"
begin

section \<open>Personal expense tracker: the handlers of main.py over an SQLite table\<close>

text \<open>
  The program is three request handlers (\<open>index\<close>, \<open>add_expense\<close>, \<open>delete_expense\<close>),
  each one SQL statement on the table \<open>expenses\<close> of a single shared connection. The
  embedding makes the table the explicit state, every exception a value, and the clock an
  argument of the create handler.
\<close>

subsection \<open>Python floats: the type of \<open>amount\<close>\<close>

text \<open>
  \<open>amount: float\<close> is an IEEE-754 binary64 number. A finite float is represented by the
  rational it denotes (so \<open>-0.0\<close> and \<open>0.0\<close>, equal in Python, are one value); addition is
  exact addition followed by rounding to the nearest binary64 number, ties to even, with
  overflow to infinity.
\<close>

datatype pyfloat = Finite rat | PInf | NInf | NaN

definition pow2 :: "int \<Rightarrow> rat" where
  "pow2 e = (if 0 \<le> e then 2 ^ nat e else 1 / 2 ^ nat (- e))"

text \<open>\<open>floor_log2 q\<close> is the binary exponent of a positive rational: \<open>2 ^ e \<le> q < 2 ^ (e + 1)\<close>.\<close>

definition floor_log2 :: "rat \<Rightarrow> int" where
  "floor_log2 q =
     (let e0 = bitlen (fst (quotient_of q)) - bitlen (snd (quotient_of q))
      in if q < pow2 e0 then e0 - 1 else e0)"

definition round_half_even :: "rat \<Rightarrow> int" where
  "round_half_even s =
     (let f = \<lfloor>s\<rfloor>; r = s - of_int f
      in if r < 1 / 2 then f else if 1 / 2 < r then f + 1
         else if even f then f else f + 1)"

text \<open>
  Rounding to binary64: 53 significant bits, the least exponent of the last place
  \<open>-1074\<close> (subnormal numbers), magnitudes from \<open>2 ^ 1024\<close> on become infinite.
\<close>

definition round_to_double :: "rat \<Rightarrow> pyfloat" where
  "round_to_double q =
     (if q = 0 then Finite 0
      else let a = \<bar>q\<bar>;
               e = max (floor_log2 a - 52) (- 1074);
               r = of_int (round_half_even (a / pow2 e)) * pow2 e
           in if pow2 1024 \<le> r then (if 0 < q then PInf else NInf)
              else Finite (if 0 < q then r else - r))"

text \<open>Python's \<open>x + y\<close> on floats.\<close>

fun fadd :: "pyfloat \<Rightarrow> pyfloat \<Rightarrow> pyfloat" where
  "fadd (Finite a) (Finite b) = round_to_double (a + b)"
| "fadd NaN y = NaN"
| "fadd x NaN = NaN"
| "fadd PInf NInf = NaN"
| "fadd NInf PInf = NaN"
| "fadd PInf y = PInf"
| "fadd NInf y = NInf"
| "fadd x PInf = PInf"
| "fadd x NInf = NInf"

datatype error = TypeError | OverflowError | OperationalError

text \<open>
  Python's builtin \<open>sum(iterable)\<close> as the handler uses it: the accumulator starts at
  \<open>0\<close> and each item is added from left to right. An item that is \<open>None\<close> (an SQL
  \<open>NULL\<close>) makes \<open>+\<close> raise \<open>TypeError\<close>. This is the summation of CPython up
  to 3.11; from 3.12 on, \<open>sum\<close> carries a compensation term for floats, which is zero as
  long as no addition rounds. The properties of the total below are stated for sums in
  which no addition rounds, and for one table in which both ways of summing round to the
  same value.
\<close>

fun py_sum :: "pyfloat \<Rightarrow> pyfloat option list \<Rightarrow> error + pyfloat" where
  "py_sum acc [] = Inr acc"
| "py_sum acc (None # xs) = Inl TypeError"
| "py_sum acc (Some x # xs) = py_sum (fadd acc x) xs"

subsection \<open>The clock and \<open>strftime("%Y-%m-%d")\<close>\<close>

text \<open>
  \<open>datetime.now()\<close> reads the server's local clock; the embedding passes its calendar
  fields in. \<open>%m\<close> and \<open>%d\<close> are two digits, zero-padded; \<open>%Y\<close> is the year in decimal,
  which the C library the handler runs on does not pad (four digits from year 1000 on).
\<close>

record datetime =
  year :: nat
  month :: nat
  day :: nat

definition digit :: "nat \<Rightarrow> char" where
  "digit n = char_of (48 + n)"

definition pad2 :: "nat \<Rightarrow> string" where
  "pad2 n = [digit (n div 10 mod 10), digit (n mod 10)]"

definition fmt_Y :: "nat \<Rightarrow> string" where
  "fmt_Y y =
     (if y < 10 then [digit y]
      else if y < 100 then [digit (y div 10), digit (y mod 10)]
      else if y < 1000 then [digit (y div 100), digit (y div 10 mod 10), digit (y mod 10)]
      else [digit (y div 1000 mod 10), digit (y div 100 mod 10), digit (y div 10 mod 10),
            digit (y mod 10)])"

definition strftime_Ymd :: "datetime \<Rightarrow> string" where
  "strftime_Ymd d = fmt_Y (year d) @ ''-'' @ pad2 (month d) @ ''-'' @ pad2 (day d)"

subsection \<open>Storage: the table \<open>expenses\<close>\<close>

text \<open>
  \<open>CREATE TABLE expenses (id INTEGER PRIMARY KEY AUTOINCREMENT, title TEXT, amount REAL,
  category TEXT, date TEXT)\<close>. A row is the tuple \<open>(e[0], ..., e[4])\<close> the cursor returns.
  Binding a float NaN stores \<open>NULL\<close>, read back as \<open>None\<close>.
\<close>

record expense =
  expense_id :: int
  title :: string
  amount :: "pyfloat option"
  category :: string
  date :: string

text \<open>
  The state of the connection: the rows of the table in rowid order, and the counter
  SQLite keeps for an \<open>AUTOINCREMENT\<close> column (the largest rowid ever assigned).
\<close>

record database =
  expenses :: "expense list"
  sqlite_sequence :: int

definition empty_db :: database where
  "empty_db = \<lparr>expenses = [], sqlite_sequence = 0\<rparr>"

definition max_rowid :: int where
  "max_rowid = 9223372036854775807"

definition min_rowid :: int where
  "min_rowid = - 9223372036854775808"

definition bind_real :: "pyfloat \<Rightarrow> pyfloat option" where
  "bind_real x = (if x = NaN then None else Some x)"

definition largest_rowid :: "database \<Rightarrow> int" where
  "largest_rowid db = fold max (map expense_id (expenses db)) (sqlite_sequence db)"

text \<open>
  \<open>INSERT INTO expenses (title, amount, category, date) VALUES (?, ?, ?, ?)\<close>: the new
  rowid is one more than the largest rowid the table has ever held; when that is the
  largest 64-bit integer the statement fails (SQLITE\_FULL, an \<open>OperationalError\<close>).
\<close>

definition sql_insert ::
  "database \<Rightarrow> string \<Rightarrow> pyfloat \<Rightarrow> string \<Rightarrow> string \<Rightarrow> error + database" where
  "sql_insert db t a c d =
     (let m = largest_rowid db
      in if max_rowid \<le> m then Inl OperationalError
         else Inr \<lparr>expenses = expenses db @
                      [\<lparr>expense_id = m + 1, title = t, amount = bind_real a,
                        category = c, date = d\<rparr>],
                    sqlite_sequence = m + 1\<rparr>)"

text \<open>
  \<open>DELETE FROM expenses WHERE id = ?\<close>: binding a Python int outside the 64-bit range
  raises \<open>OverflowError\<close> before the statement runs.
\<close>

definition sql_delete :: "database \<Rightarrow> int \<Rightarrow> error + database" where
  "sql_delete db i =
     (if i < min_rowid \<or> max_rowid < i then Inl OverflowError
      else Inr (db\<lparr>expenses := filter (\<lambda>e. expense_id e \<noteq> i) (expenses db)\<rparr>))"

text \<open>
  \<open>SELECT * FROM expenses ORDER BY date DESC\<close>: the rows are scanned in rowid order and
  sorted on the text of \<open>date\<close> (bytewise comparison), greatest first; the sorter keeps
  rows with equal keys in scan order.
\<close>

fun insert_desc :: "expense \<Rightarrow> expense list \<Rightarrow> expense list" where
  "insert_desc r [] = [r]"
| "insert_desc r (x # xs) =
     (if date x \<le> date r then r # x # xs else x # insert_desc r xs)"

definition sql_select_order_by_date_desc :: "database \<Rightarrow> expense list" where
  "sql_select_order_by_date_desc db = foldr insert_desc (expenses db) []"

subsection \<open>The handlers\<close>

datatype response =
  TemplateResponse "expense list" pyfloat
| RedirectResponse string nat

text \<open>\<open>index\<close>: the listing and its total, both from one \<open>fetchall()\<close>.\<close>

definition index :: "database \<Rightarrow> error + response" where
  "index db =
     (let fetched = sql_select_order_by_date_desc db
      in case py_sum (Finite 0) (map amount fetched) of
           Inl e \<Rightarrow> Inl e
         | Inr total' \<Rightarrow> Inr (TemplateResponse fetched total'))"

definition add_expense ::
  "database \<Rightarrow> datetime \<Rightarrow> string \<Rightarrow> pyfloat \<Rightarrow> string \<Rightarrow> database \<times> (error + response)" where
  "add_expense db now t a c =
     (case sql_insert db t a c (strftime_Ymd now) of
        Inl e \<Rightarrow> (db, Inl e)
      | Inr db' \<Rightarrow> (db', Inr (RedirectResponse ''/'' 303)))"

definition delete_expense :: "database \<Rightarrow> int \<Rightarrow> database \<times> (error + response)" where
  "delete_expense db i =
     (case sql_delete db i of
        Inl e \<Rightarrow> (db, Inl e)
      | Inr db' \<Rightarrow> (db', Inr (RedirectResponse ''/'' 303)))"

subsection \<open>Reading a stored date back\<close>

text \<open>
  The dates the clock of a running server yields have four-digit years. \<open>parse_Ymd\<close>
  reads a text of the form \<open>YYYY-MM-DD\<close> back into its three numbers.
\<close>

definition clock_date :: "datetime \<Rightarrow> bool" where
  "clock_date d \<longleftrightarrow>
     1000 \<le> year d \<and> year d \<le> 9999 \<and> 1 \<le> month d \<and> month d \<le> 12 \<and>
     1 \<le> day d \<and> day d \<le> 31"

definition digit_val :: "char \<Rightarrow> nat option" where
  "digit_val ch =
     (let k = (of_char ch :: nat) in if 48 \<le> k \<and> k \<le> 57 then Some (k - 48) else None)"

fun number_of_digits :: "nat \<Rightarrow> string \<Rightarrow> nat option" where
  "number_of_digits acc [] = Some acc"
| "number_of_digits acc (ch # cs) =
     (case digit_val ch of None \<Rightarrow> None | Some v \<Rightarrow> number_of_digits (10 * acc + v) cs)"

definition parse_Ymd :: "string \<Rightarrow> (nat \<times> nat \<times> nat) option" where
  "parse_Ymd s =
     (if length s = 10 \<and> s ! 4 = CHR ''-'' \<and> s ! 7 = CHR ''-'' then
        (case (number_of_digits 0 (take 4 s), number_of_digits 0 (take 2 (drop 5 s)),
               number_of_digits 0 (drop 8 s)) of
           (Some y, Some m, Some d) \<Rightarrow> Some (y, m, d)
         | _ \<Rightarrow> None)
      else None)"

text \<open>Chronological order of calendar dates: \<open>later a b\<close> when \<open>a\<close> is after \<open>b\<close>.\<close>

definition later :: "datetime \<Rightarrow> datetime \<Rightarrow> bool" where
  "later a b \<longleftrightarrow>
     year b < year a \<or>
     (year a = year b \<and> (month b < month a \<or> (month a = month b \<and> day b < day a)))"

subsection \<open>One request, served by its handler\<close>

text \<open>
  The application has three routes and no other way to touch the table: a call is one of
  the three handlers with the arguments the framework passes it.
\<close>

datatype call = Index | AddExpense datetime string pyfloat string | DeleteExpense int

fun step :: "database \<Rightarrow> call \<Rightarrow> database \<times> (error + response)" where
  "step db Index = (db, index db)"
| "step db (AddExpense now t a c) = add_expense db now t a c"
| "step db (DeleteExpense i) = delete_expense db i"

text \<open>
  What SQLite maintains of the table: rowids strictly ascending in scan order (the primary
  key), every rowid positive and at most the \<open>AUTOINCREMENT\<close> counter, the counter within
  the 64-bit range.
\<close>

definition table_ok :: "database \<Rightarrow> bool" where
  "table_ok db \<longleftrightarrow>
     sorted_wrt (<) (map expense_id (expenses db)) \<and>
     list_all (\<lambda>r. 1 \<le> expense_id r \<and> expense_id r \<le> sqlite_sequence db) (expenses db) \<and>
     0 \<le> sqlite_sequence db \<and> sqlite_sequence db \<le> max_rowid"

text \<open>
  The ids of the records that the successful creates of a sequence of calls insert, in
  order of creation: the id of a created record is read off the row the create appended.
\<close>

fun created_ids :: "database \<Rightarrow> call list \<Rightarrow> int list" where
  "created_ids db [] = []"
| "created_ids db (c # cs) =
     (case step db c of
        (db', res) \<Rightarrow>
          (case (c, res) of
             (AddExpense now t a b, Inr ok) \<Rightarrow> [expense_id (last (expenses db'))]
           | _ \<Rightarrow> []) @ created_ids db' cs)"

subsection \<open>Requests as the framework binds them\<close>

text \<open>
  The handlers declare their parameters: \<open>title\<close>, \<open>amount\<close> and \<open>category\<close> are required
  form fields (\<open>Form(...)\<close>), \<open>amount\<close> a float, and \<open>expense_id\<close> is a path parameter, an
  int. The framework binds a request to these parameters before it calls the handler, and
  answers 422 without calling it when a required field is missing or a text does not
  convert. A field is \<open>None\<close> when the framework finds it missing; the conversions of text
  to float and to int are the framework's and are arguments here. An exception that
  escapes a handler is answered with status 500.
\<close>

record add_form =
  form_title :: "string option"
  form_amount :: "string option"
  form_category :: "string option"

datatype reply = Unprocessable | Served "error + response"

fun status_code :: "reply \<Rightarrow> nat" where
  "status_code Unprocessable = 422"
| "status_code (Served (Inl e)) = 500"
| "status_code (Served (Inr (TemplateResponse es t))) = 200"
| "status_code (Served (Inr (RedirectResponse url code))) = code"

definition post_add ::
  "(string \<Rightarrow> pyfloat option) \<Rightarrow> database \<Rightarrow> datetime \<Rightarrow> add_form \<Rightarrow> database \<times> reply" where
  "post_add float_of db now f =
     (case (form_title f, form_amount f, form_category f) of
        (Some t, Some a, Some c) \<Rightarrow>
          (case float_of a of
             Some x \<Rightarrow> (case add_expense db now t x c of (db', r) \<Rightarrow> (db', Served r))
           | None \<Rightarrow> (db, Unprocessable))
      | _ \<Rightarrow> (db, Unprocessable))"

definition get_delete ::
  "(string \<Rightarrow> int option) \<Rightarrow> database \<Rightarrow> string \<Rightarrow> database \<times> reply" where
  "get_delete int_of db p =
     (case int_of p of
        Some i \<Rightarrow> (case delete_expense db i of (db', r) \<Rightarrow> (db', Served r))
      | None \<Rightarrow> (db, Unprocessable))"

subsection \<open>Amounts as numbers\<close>




text \<open>The table after a sequence of calls, served one after the other.\<close>

fun run :: "database \<Rightarrow> call list \<Rightarrow> database" where
  "run db [] = db"
| "run db (c # cs) = run (fst (step db c)) cs"

subsection \<open>Example tables\<close>

text \<open>
  The rows and tables on which the properties below are evaluated: a bus fare and a tea
  bought on 3 February 2024, a coffee bought two days later, and two amounts so far
  apart that their floating-point sum is rounded.
\<close>

definition row_bus :: expense where
  "row_bus = \<lparr>expense_id = 1, title = ''Bus'', amount = Some (Finite 2),
               category = ''Transport'', date = ''2024-02-03''\<rparr>"

definition row_coffee :: expense where
  "row_coffee = \<lparr>expense_id = 2, title = ''Coffee'', amount = Some (Finite (9 / 2)),
                  category = ''Food'', date = ''2024-02-05''\<rparr>"

definition row_tea :: expense where
  "row_tea = \<lparr>expense_id = 3, title = ''Tea'', amount = Some (Finite 3),
               category = ''Food'', date = ''2024-02-03''\<rparr>"



definition two_rows :: database where
  "two_rows = \<lparr>expenses = [row_bus, row_coffee], sqlite_sequence = 2\<rparr>"

definition three_rows :: database where
  "three_rows = \<lparr>expenses = [row_bus, row_coffee, row_tea], sqlite_sequence = 3\<rparr>"


definition bus_and_tea :: database where
  "bus_and_tea = \<lparr>expenses = [row_bus, row_tea], sqlite_sequence = 3\<rparr>"



text \<open>The day on which each row of \<open>two_rows\<close> was created.\<close>

definition created_on :: "expense \<Rightarrow> datetime" where
  "created_on r = (if expense_id r = 1 then \<lparr>year = 2024, month = 2, day = 3\<rparr>
                   else \<lparr>year = 2024, month = 2, day = 5\<rparr>)"

section \<open>Properties\<close>

subsection \<open>The example tables\<close>

lemma strftime_3_February: "strftime_Ymd \<lparr>year = 2024, month = 2, day = 3\<rparr> = ''2024-02-03''"
  by code_simp

lemma strftime_5_February: "strftime_Ymd \<lparr>year = 2024, month = 2, day = 5\<rparr> = ''2024-02-05''"
  by code_simp


lemma table_ok_three_rows: "table_ok three_rows"
  by (simp add: three_rows_def row_bus_def row_coffee_def row_tea_def table_ok_def
      max_rowid_def)


lemma listing_two_rows: "sql_select_order_by_date_desc two_rows = [row_coffee, row_bus]"
  by (simp add: two_rows_def row_bus_def row_coffee_def sql_select_order_by_date_desc_def)

lemma listing_three_rows:
  "sql_select_order_by_date_desc three_rows = [row_coffee, row_bus, row_tea]"
  by (simp add: three_rows_def row_bus_def row_coffee_def row_tea_def
      sql_select_order_by_date_desc_def)




subsection \<open>Dates\<close>

lemma digit_val_digit: "n < 10 \<Longrightarrow> digit_val (digit n) = Some n"
  by (simp add: digit_val_def digit_def)

lemma number_of_digits_pad2: "n < 100 \<Longrightarrow> number_of_digits 0 (pad2 n) = Some n"
  by (simp add: pad2_def digit_val_digit)

lemma decimal4:
  assumes "y < 10000"
  shows "10 * (10 * (10 * (y div 1000 mod 10) + y div 100 mod 10) + y div 10 mod 10) + y mod 10
           = (y::nat)"
proof -
  define q1 where "q1 = y div 10"
  define q2 where "q2 = q1 div 10"
  define q3 where "q3 = q2 div 10"
  have a: "y div 100 = q2"
    by (simp add: q1_def q2_def div_mult2_eq)
  have b: "y div 1000 = q3"
    by (simp add: q1_def q2_def q3_def div_mult2_eq)
  have c: "q3 mod 10 = q3"
    using assms b by simp
  have e1: "y = 10 * q1 + y mod 10"
    by (simp add: q1_def)
  have e2: "q1 = 10 * q2 + q1 mod 10"
    by (simp add: q2_def)
  have e3: "q2 = 10 * q3 + q2 mod 10"
    by (simp add: q3_def)
  have "10 * (10 * (10 * q3 + q2 mod 10) + q1 mod 10) + y mod 10 = y"
    using e1 e2 e3 by metis
  then show ?thesis
    by (simp only: a b c flip: q1_def)
qed

lemma number_of_digits_fmt_Y:
  "1000 \<le> y \<Longrightarrow> y \<le> 9999 \<Longrightarrow> number_of_digits 0 (fmt_Y y) = Some y"
  using decimal4 [of y] by (simp add: fmt_Y_def digit_val_digit)

lemma parse_strftime:
  assumes "clock_date d"
  shows "parse_Ymd (strftime_Ymd d) = Some (year d, month d, day d)"
proof -
  have y: "number_of_digits 0 (fmt_Y (year d)) = Some (year d)"
    using assms by (simp add: clock_date_def number_of_digits_fmt_Y)
  have m: "number_of_digits 0 (pad2 (month d)) = Some (month d)"
    using assms by (simp add: clock_date_def number_of_digits_pad2)
  have dd: "number_of_digits 0 (pad2 (day d)) = Some (day d)"
    using assms by (simp add: clock_date_def number_of_digits_pad2)
  have l4: "length (fmt_Y (year d)) = 4"
    using assms by (simp add: clock_date_def fmt_Y_def)
  have l2: "length (pad2 n) = 2" for n
    by (simp add: pad2_def)
  show ?thesis
    using y m dd l4 l2 by (simp add: parse_Ymd_def strftime_Ymd_def nth_append)
qed

subsection \<open>The create handler\<close>

text \<open>
  C7. Every successful call of the create handler persists exactly one new record: the
  table afterwards is the table before with one row appended, which carries the title,
  amount and category of the request and, as its date, the clock's date formatted by
  \<open>strftime("%Y-%m-%d")\<close>, a text that reads back as the year, month and day of the
  clock. The response is the redirect to \<open>/\<close> with status 303.
\<close>

theorem C7_successful_create:
  assumes "add_expense db now t a c = (db', Inr resp)" and "clock_date now"
  shows "resp = RedirectResponse ''/'' 303 \<and>
         (\<exists>r. expenses db' = expenses db @ [r] \<and> title r = t \<and> amount r = bind_real a \<and>
              category r = c \<and> date r = strftime_Ymd now \<and>
              parse_Ymd (date r) = Some (year now, month now, day now))"
  using assms parse_strftime [of now]
  by (auto simp: add_expense_def sql_insert_def Let_def split: if_splits)

theorem C7_successful_create_witness:
  "add_expense empty_db \<lparr>year = 2024, month = 3, day = 5\<rparr> ''Coffee'' (Finite (9 / 2)) ''Food'' =
     (\<lparr>expenses = [\<lparr>expense_id = 1, title = ''Coffee'', amount = Some (Finite (9 / 2)),
                     category = ''Food'', date = ''2024-03-05''\<rparr>],
       sqlite_sequence = 1\<rparr>,
      Inr (RedirectResponse ''/'' 303)) \<and>
   clock_date \<lparr>year = 2024, month = 3, day = 5\<rparr> \<and>
   parse_Ymd ''2024-03-05'' = Some (2024, 3, 5)"
proof -
  let ?now = "\<lparr>year = 2024, month = 3, day = 5\<rparr>"
  let ?db' = "\<lparr>expenses = [\<lparr>expense_id = 1, title = ''Coffee'', amount = Some (Finite (9 / 2)),
                     category = ''Food'', date = ''2024-03-05''\<rparr>], sqlite_sequence = 1\<rparr>"
  have fmt: "strftime_Ymd ?now = ''2024-03-05''"
    by code_simp
  have run: "add_expense empty_db ?now ''Coffee'' (Finite (9 / 2)) ''Food'' =
               (?db', Inr (RedirectResponse ''/'' 303))"
    by (simp add: add_expense_def sql_insert_def largest_rowid_def empty_db_def max_rowid_def
        bind_real_def fmt)
  have clock: "clock_date ?now"
    by (simp add: clock_date_def)
  from C7_successful_create [OF run clock]
  have "parse_Ymd (strftime_Ymd ?now) = Some (year ?now, month ?now, day ?now)"
    by metis
  then have parsed: "parse_Ymd ''2024-03-05'' = Some (2024, 3, 5)"
    unfolding fmt by simp
  show ?thesis
    using run clock parsed by (intro conjI)
qed

subsection \<open>Dates as text\<close>

lemma of_char_digit: "n < 10 \<Longrightarrow> (of_char (digit n) :: nat) = 48 + n"
  by (simp add: digit_def)

lemma digit_less: "a < 10 \<Longrightarrow> b < 10 \<Longrightarrow> digit a < digit b \<longleftrightarrow> a < b"
  by (simp add: less_char_def of_char_digit)

lemma digit_eq: "a < 10 \<Longrightarrow> b < 10 \<Longrightarrow> digit a = digit b \<longleftrightarrow> a = b"
  by (metis of_char_digit add_left_cancel)

lemma digit_Cons_less:
  "a < 10 \<Longrightarrow> b < 10 \<Longrightarrow> digit a # s < digit b # t \<longleftrightarrow> a < b \<or> (a = b \<and> s < t)"
  by (simp add: digit_less digit_eq)

lemma pair_less:
  fixes h l :: nat
  assumes "l < 10" "l' < 10"
  shows "(h < h' \<or> (h = h' \<and> (l < l' \<or> (l = l' \<and> P)))) \<longleftrightarrow>
         (10 * h + l < 10 * h' + l' \<or> (10 * h + l = 10 * h' + l' \<and> P))"
  using assms by auto

lemma pad2_less:
  assumes "m < 100" "n < 100"
  shows "pad2 m @ s < pad2 n @ t \<longleftrightarrow> m < n \<or> (m = n \<and> s < t)"
proof -
  have hm: "m div 10 mod 10 = m div 10" and hn: "n div 10 mod 10 = n div 10"
    using assms by simp_all
  have lm: "m div 10 < 10" "n div 10 < 10" "m mod 10 < 10" "n mod 10 < 10"
    using assms by simp_all
  have "pad2 m @ s < pad2 n @ t \<longleftrightarrow>
        (m div 10 < n div 10 \<or> (m div 10 = n div 10 \<and>
           (m mod 10 < n mod 10 \<or> (m mod 10 = n mod 10 \<and> s < t))))"
    using assms by (simp add: pad2_def hm hn digit_less digit_eq)
  also have "\<dots> \<longleftrightarrow> (10 * (m div 10) + m mod 10 < 10 * (n div 10) + n mod 10 \<or>
        (10 * (m div 10) + m mod 10 = 10 * (n div 10) + n mod 10 \<and> s < t))"
    by (rule pair_less) (simp_all)
  also have "\<dots> \<longleftrightarrow> m < n \<or> (m = n \<and> s < t)"
    by simp
  finally show ?thesis .
qed

lemma fmt_Y_less:
  assumes "1000 \<le> y" "y \<le> 9999" "1000 \<le> z" "z \<le> 9999"
  shows "fmt_Y y @ s < fmt_Y z @ t \<longleftrightarrow> y < z \<or> (y = z \<and> s < t)"
proof -
  define y3 y2 y1 y0 where "y3 = y div 1000 mod 10" and "y2 = y div 100 mod 10"
    and "y1 = y div 10 mod 10" and "y0 = y mod 10"
  define z3 z2 z1 z0 where "z3 = z div 1000 mod 10" and "z2 = z div 100 mod 10"
    and "z1 = z div 10 mod 10" and "z0 = z mod 10"
  note defs = y3_def y2_def y1_def y0_def z3_def z2_def z1_def z0_def
  have bounds: "y3 < 10" "y2 < 10" "y1 < 10" "y0 < 10" "z3 < 10" "z2 < 10" "z1 < 10" "z0 < 10"
    by (simp_all add: defs)
  have y: "y = 10 * (10 * (10 * y3 + y2) + y1) + y0"
    using decimal4 [of y] assms by (simp add: defs)
  have z: "z = 10 * (10 * (10 * z3 + z2) + z1) + z0"
    using decimal4 [of z] assms by (simp add: defs)
  have fy: "fmt_Y y = [digit y3, digit y2, digit y1, digit y0]"
    using assms by (simp add: fmt_Y_def defs)
  have fz: "fmt_Y z = [digit z3, digit z2, digit z1, digit z0]"
    using assms by (simp add: fmt_Y_def defs)
  have "fmt_Y y @ s < fmt_Y z @ t \<longleftrightarrow>
        (y3 < z3 \<or> (y3 = z3 \<and> (y2 < z2 \<or> (y2 = z2 \<and> (y1 < z1 \<or> (y1 = z1 \<and>
           (y0 < z0 \<or> (y0 = z0 \<and> s < t))))))))"
    using bounds by (simp add: fy fz digit_less digit_eq)
  also have "\<dots> \<longleftrightarrow> (y3 < z3 \<or> (y3 = z3 \<and> (y2 < z2 \<or> (y2 = z2 \<and>
           (10 * y1 + y0 < 10 * z1 + z0 \<or> (10 * y1 + y0 = 10 * z1 + z0 \<and> s < t))))))"
    using pair_less [OF bounds(4) bounds(8), of y1 z1 "s < t"] by simp
  also have "\<dots> \<longleftrightarrow> y < z \<or> (y = z \<and> s < t)"
    unfolding y z using bounds by auto
  finally show ?thesis .
qed

lemma dash_less: "CHR ''-'' # s < CHR ''-'' # t \<longleftrightarrow> s < t"
  by simp

lemma strftime_less_iff_later:
  assumes "clock_date a" and "clock_date b"
  shows "strftime_Ymd b < strftime_Ymd a \<longleftrightarrow> later a b"
proof -
  have "strftime_Ymd b < strftime_Ymd a \<longleftrightarrow>
        year b < year a \<or> (year b = year a \<and>
          CHR ''-'' # pad2 (month b) @ CHR ''-'' # pad2 (day b) @ []
            < CHR ''-'' # pad2 (month a) @ CHR ''-'' # pad2 (day a) @ [])"
    using assms fmt_Y_less [of "year b" "year a"] by (simp add: strftime_Ymd_def clock_date_def)
  also have "\<dots> \<longleftrightarrow> year b < year a \<or> (year b = year a \<and>
          (month b < month a \<or> (month b = month a \<and>
             CHR ''-'' # pad2 (day b) @ [] < CHR ''-'' # pad2 (day a) @ [])))"
    using assms pad2_less [of "month b" "month a"] unfolding dash_less
    by (simp add: clock_date_def)
  also have "\<dots> \<longleftrightarrow> year b < year a \<or> (year b = year a \<and>
          (month b < month a \<or> (month b = month a \<and> day b < day a)))"
    using assms pad2_less [of "day b" "day a" "[]" "[]"] unfolding dash_less
    by (simp add: clock_date_def)
  also have "\<dots> \<longleftrightarrow> later a b"
    by (auto simp: later_def)
  finally show ?thesis .
qed

subsection \<open>The listing\<close>

lemma mset_insert_desc: "mset (insert_desc r xs) = add_mset r (mset xs)"
  by (induction xs) auto

lemma set_insert_desc: "set (insert_desc r xs) = insert r (set xs)"
  by (induction xs) auto

lemma sorted_insert_desc:
  "sorted_wrt (\<lambda>x y. date y \<le> date x) xs \<Longrightarrow>
   sorted_wrt (\<lambda>x y. date y \<le> date x) (insert_desc r xs)"
  by (induction xs) (auto simp: set_insert_desc)

lemma filter_insert_desc:
  "filter (\<lambda>x. date x = d) (insert_desc r xs) =
     (if date r = d then r # filter (\<lambda>x. date x = d) xs else filter (\<lambda>x. date x = d) xs)"
  by (induction xs) auto

lemma mset_foldr_insert_desc: "mset (foldr insert_desc xs []) = mset xs"
  by (induction xs) (auto simp: mset_insert_desc)

lemma sorted_foldr_insert_desc:
  "sorted_wrt (\<lambda>x y. date y \<le> date x) (foldr insert_desc xs [])"
  by (induction xs) (auto simp: sorted_insert_desc)

lemma filter_foldr_insert_desc:
  "filter (\<lambda>x. date x = d) (foldr insert_desc xs []) = filter (\<lambda>x. date x = d) xs"
  by (induction xs) (auto simp: filter_insert_desc)

lemma mset_select: "mset (sql_select_order_by_date_desc db) = mset (expenses db)"
  by (simp add: sql_select_order_by_date_desc_def mset_foldr_insert_desc)

lemma sorted_select:
  "sorted_wrt (\<lambda>x y. date y \<le> date x) (sql_select_order_by_date_desc db)"
  by (simp add: sql_select_order_by_date_desc_def sorted_foldr_insert_desc)

lemma ties_select:
  "filter (\<lambda>x. date x = d) (sql_select_order_by_date_desc db) =
   filter (\<lambda>x. date x = d) (expenses db)"
  by (simp add: sql_select_order_by_date_desc_def filter_foldr_insert_desc)

lemma index_cases:
  "(\<exists>t. index db = Inr (TemplateResponse (sql_select_order_by_date_desc db) t)) \<or>
   index db = Inl TypeError"
proof -
  have "py_sum acc xs = Inl TypeError \<or> (\<exists>t. py_sum acc xs = Inr t)" for acc xs
    by (induction acc xs rule: py_sum.induct) auto
  from this [of "Finite 0" "map amount (sql_select_order_by_date_desc db)"]
  show ?thesis
    by (auto simp: index_def Let_def)
qed

lemma ties_by_id:
  assumes "sorted_wrt (<) (map expense_id xs)"
  shows "sorted_wrt (\<lambda>x y. expense_id x < expense_id y) (filter (\<lambda>x. date x = d) xs)"
  using assms by (induction xs) (auto simp: sorted_wrt_map)

lemma not_later_of_text_le:
  assumes "clock_date a" and "clock_date b" and "strftime_Ymd b \<le> strftime_Ymd a"
  shows "\<not> later b a"
  using strftime_less_iff_later [OF assms(2) assms(1)] assms(3) by auto

text \<open>
  C10. The listing is ordered by comparing the stored date texts. When every row carries
  the date the create handler wrote for some clock date (four-digit year, written by
  \<open>strftime("%Y-%m-%d")\<close>), the listing is in reverse chronological order: no row is
  followed by a row of a later calendar date, and for any two listed rows the date text of
  one is greater than that of the other exactly when its calendar date is later.
\<close>

theorem C10_listing_reverse_chronological:
  assumes "list_all (\<lambda>r. clock_date (stamp r) \<and> date r = strftime_Ymd (stamp r)) (expenses db)"
  shows "sorted_wrt (\<lambda>x y. \<not> later (stamp y) (stamp x)) (sql_select_order_by_date_desc db) \<and>
         (\<forall>x \<in> set (sql_select_order_by_date_desc db).
            \<forall>y \<in> set (sql_select_order_by_date_desc db).
              date y < date x \<longleftrightarrow> later (stamp x) (stamp y))"
proof -
  let ?l = "sql_select_order_by_date_desc db"
  have mem: "set ?l = set (expenses db)"
    using mset_select [of db] by (metis set_mset_mset)
  have st: "clock_date (stamp r) \<and> date r = strftime_Ymd (stamp r)" if "r \<in> set ?l" for r
    using assms that by (simp add: mem list_all_iff)
  have "sorted_wrt (\<lambda>x y. \<not> later (stamp y) (stamp x)) ?l"
  proof (rule sorted_wrt_mono_rel [OF _ sorted_select])
    fix x y
    assume "x \<in> set ?l" "y \<in> set ?l" "date y \<le> date x"
    then show "\<not> later (stamp y) (stamp x)"
      using st [of x] st [of y] not_later_of_text_le [of "stamp x" "stamp y"] by simp
  qed
  moreover have "date y < date x \<longleftrightarrow> later (stamp x) (stamp y)"
    if "x \<in> set ?l" "y \<in> set ?l" for x y
    using st [OF that(1)] st [OF that(2)] strftime_less_iff_later [of "stamp x" "stamp y"]
    by simp
  ultimately show ?thesis
    by blast
qed

theorem C10_listing_reverse_chronological_witness:
  "add_expense
       (fst (add_expense empty_db \<lparr>year = 2024, month = 2, day = 3\<rparr> ''Bus'' (Finite 2)
               ''Transport''))
       \<lparr>year = 2024, month = 2, day = 5\<rparr> ''Coffee'' (Finite (9 / 2)) ''Food''
     = (two_rows, Inr (RedirectResponse ''/'' 303)) \<and>
   list_all (\<lambda>r. clock_date (created_on r) \<and> date r = strftime_Ymd (created_on r))
     (expenses two_rows) \<and>
   sql_select_order_by_date_desc two_rows = [row_coffee, row_bus] \<and>
   sorted_wrt (\<lambda>x y. \<not> later (created_on y) (created_on x))
     (sql_select_order_by_date_desc two_rows)"
proof -
  have run: "add_expense
       (fst (add_expense empty_db \<lparr>year = 2024, month = 2, day = 3\<rparr> ''Bus'' (Finite 2)
               ''Transport''))
       \<lparr>year = 2024, month = 2, day = 5\<rparr> ''Coffee'' (Finite (9 / 2)) ''Food''
     = (two_rows, Inr (RedirectResponse ''/'' 303))"
    by (simp add: two_rows_def row_bus_def row_coffee_def add_expense_def sql_insert_def
        largest_rowid_def empty_db_def
        max_rowid_def bind_real_def strftime_3_February strftime_5_February)
  have hyp: "list_all (\<lambda>r. clock_date (created_on r) \<and> date r = strftime_Ymd (created_on r))
               (expenses two_rows)"
    by (simp add: two_rows_def row_bus_def row_coffee_def created_on_def clock_date_def
        strftime_3_February
        strftime_5_February)
  have "sorted_wrt (\<lambda>x y. \<not> later (created_on y) (created_on x))
          (sql_select_order_by_date_desc two_rows)"
    using C10_listing_reverse_chronological [OF hyp] by (rule conjunct1)
  with run hyp listing_two_rows show ?thesis
    by (intro conjI)
qed

text \<open>
  C2. The listing returns every current record, each exactly once, ordered by date
  descending; records sharing a date appear in the order of the table, which is ascending
  id, the order of their insertion; serving the listing writes nothing, so a repeated
  listing with no write in between is the same list. \<open>index\<close> renders exactly this list
  whenever it renders.
\<close>

theorem C2_listing_order:
  assumes "table_ok db"
  shows "mset (sql_select_order_by_date_desc db) = mset (expenses db) \<and>
         sorted_wrt (\<lambda>x y. date y \<le> date x) (sql_select_order_by_date_desc db) \<and>
         (\<forall>d. filter (\<lambda>r. date r = d) (sql_select_order_by_date_desc db)
                = filter (\<lambda>r. date r = d) (expenses db)) \<and>
         (\<forall>d. sorted_wrt (\<lambda>x y. expense_id x < expense_id y)
                (filter (\<lambda>r. date r = d) (sql_select_order_by_date_desc db))) \<and>
         ((\<exists>t. index db = Inr (TemplateResponse (sql_select_order_by_date_desc db) t)) \<or>
          index db = Inl TypeError) \<and>
         sql_select_order_by_date_desc (fst (step db Index)) = sql_select_order_by_date_desc db"
proof -
  have "sorted_wrt (<) (map expense_id (expenses db))"
    using assms by (simp add: table_ok_def)
  then have "sorted_wrt (\<lambda>x y. expense_id x < expense_id y)
               (filter (\<lambda>r. date r = d) (sql_select_order_by_date_desc db))" for d
    by (simp add: ties_select ties_by_id)
  then show ?thesis
    using mset_select [of db] sorted_select [of db] ties_select [of _ db] index_cases [of db]
    by simp
qed

theorem C2_listing_order_witness:
  "table_ok three_rows \<and>
   sql_select_order_by_date_desc three_rows = [row_coffee, row_bus, row_tea] \<and>
   filter (\<lambda>r. date r = ''2024-02-03'') (sql_select_order_by_date_desc three_rows) =
     [row_bus, row_tea]"
proof -
  have "filter (\<lambda>r. date r = ''2024-02-03'') (sql_select_order_by_date_desc three_rows) =
          filter (\<lambda>r. date r = ''2024-02-03'') (expenses three_rows)"
    using C2_listing_order [OF table_ok_three_rows] by blast
  then have "filter (\<lambda>r. date r = ''2024-02-03'') (sql_select_order_by_date_desc three_rows) =
               [row_bus, row_tea]"
    by (simp add: three_rows_def row_bus_def row_coffee_def row_tea_def)
  with table_ok_three_rows listing_three_rows show ?thesis
    by (intro conjI)
qed

subsection \<open>Identifiers\<close>

lemma fold_max_ge: "(s::int) \<le> fold max xs s"
  by (induction xs arbitrary: s) (auto intro: order_trans [OF max.cobounded2])

lemma largest_rowid_ge: "sqlite_sequence db \<le> largest_rowid db"
  by (simp add: largest_rowid_def fold_max_ge)

lemma add_expense_id:
  assumes "add_expense db now t a c = (db', Inr ok)"
  shows "expense_id (last (expenses db')) = largest_rowid db + 1"
    and "sqlite_sequence db' = largest_rowid db + 1"
  using assms by (auto simp: add_expense_def sql_insert_def Let_def split: if_splits)

lemma step_sequence_mono:
  assumes "step db c = (db', res)"
  shows "sqlite_sequence db \<le> sqlite_sequence db'"
proof (cases c)
  case Index
  with assms show ?thesis by simp
next
  case (AddExpense now t a b)
  with assms largest_rowid_ge [of db] show ?thesis
    by (auto simp: add_expense_def sql_insert_def Let_def split: if_splits)
next
  case (DeleteExpense i)
  with assms show ?thesis
    by (auto simp: delete_expense_def sql_delete_def split: if_splits)
qed

lemma created_ids_above:
  "list_all (\<lambda>i. sqlite_sequence db < i) (created_ids db cs)"
proof (induction cs arbitrary: db)
  case Nil
  show ?case by simp
next
  case (Cons c cs)
  obtain db' res where s: "step db c = (db', res)"
    by (cases "step db c")
  have mono: "sqlite_sequence db \<le> sqlite_sequence db'"
    using s by (rule step_sequence_mono)
  have rest: "list_all (\<lambda>i. sqlite_sequence db < i) (created_ids db' cs)"
    using Cons.IH [of db'] mono by (auto simp: list_all_iff)
  show ?case
  proof (cases c)
    case (AddExpense now t a b)
    show ?thesis
    proof (cases res)
      case (Inr ok)
      with s AddExpense have "add_expense db now t a b = (db', Inr ok)" by simp
      from add_expense_id(1) [OF this] largest_rowid_ge [of db]
      have "sqlite_sequence db < expense_id (last (expenses db'))" by simp
      with s AddExpense Inr rest show ?thesis by simp
    next
      case (Inl e)
      with s AddExpense rest show ?thesis by simp
    qed
  qed (use s rest in auto)
qed

lemma table_ok_ids_le:
  assumes "table_ok db"
  shows "list_all (\<lambda>r. expense_id r \<le> sqlite_sequence db) (expenses db)"
  using assms by (auto simp: table_ok_def list_all_iff)

text \<open>
  C5. Along any sequence of requests, the ids given to the records of the successful
  creates are strictly increasing in creation order, hence pairwise different, and each is
  greater than the \<open>AUTOINCREMENT\<close> counter at the start, so greater than every id the
  table holds or has ever held: deleting a record in between does not free its id.
\<close>

theorem C5_ids_increase:
  "sorted_wrt (<) (created_ids db cs) \<and> distinct (created_ids db cs) \<and>
   list_all (\<lambda>i. sqlite_sequence db < i) (created_ids db cs) \<and>
   (table_ok db \<longrightarrow>
      list_all (\<lambda>i. list_all (\<lambda>r. expense_id r < i) (expenses db)) (created_ids db cs))"
proof -
  have sorted: "sorted_wrt (<) (created_ids db cs)"
  proof (induction cs arbitrary: db)
    case Nil
    show ?case by simp
  next
    case (Cons c cs)
    obtain db' res where s: "step db c = (db', res)"
      by (cases "step db c")
    have above: "list_all (\<lambda>i. sqlite_sequence db' < i) (created_ids db' cs)"
      by (rule created_ids_above)
    show ?case
    proof (cases c)
      case (AddExpense now t a b)
      show ?thesis
      proof (cases res)
        case (Inr ok)
        with s AddExpense have run: "add_expense db now t a b = (db', Inr ok)" by simp
        have "expense_id (last (expenses db')) = sqlite_sequence db'"
          using add_expense_id [OF run] by simp
        with above have "\<forall>i \<in> set (created_ids db' cs). expense_id (last (expenses db')) < i"
          by (simp add: list_all_iff)
        with s AddExpense Inr Cons.IH [of db'] show ?thesis by simp
      next
        case (Inl e)
        with s AddExpense Cons.IH [of db'] show ?thesis by simp
      qed
    qed (use s Cons.IH [of db'] in auto)
  qed
  then have "distinct (created_ids db cs)"
    by (simp add: strict_sorted_iff)
  moreover have "list_all (\<lambda>i. list_all (\<lambda>r. expense_id r < i) (expenses db)) (created_ids db cs)"
    if "table_ok db"
    using created_ids_above [of db cs] table_ok_ids_le [OF that]
    by (fastforce simp: list_all_iff)
  ultimately show ?thesis
    using sorted created_ids_above [of db cs] by blast
qed

theorem C5_ids_increase_witness:
  "table_ok empty_db \<and> created_ids empty_db [AddExpense \<lparr>year = 2024, month = 2, day = 3\<rparr>
      ''Bus'' (Finite 2) ''Transport'', AddExpense \<lparr>year = 2024, month = 2, day = 3\<rparr> ''Coffee''
      (Finite (9 / 2)) ''Food'', DeleteExpense 2, AddExpense \<lparr>year = 2024, month = 2, day = 3\<rparr>
      ''Tea'' (Finite 3) ''Food''] = [1, 2, 3] \<and>
   sorted_wrt (<) (created_ids empty_db [AddExpense \<lparr>year = 2024, month = 2, day = 3\<rparr>
       ''Bus'' (Finite 2) ''Transport'', AddExpense \<lparr>year = 2024, month = 2, day = 3\<rparr> ''Coffee''
       (Finite (9 / 2)) ''Food'', DeleteExpense 2, AddExpense \<lparr>year = 2024, month = 2, day = 3\<rparr>
       ''Tea'' (Finite 3) ''Food''])"
proof -
  have ok: "table_ok empty_db"
    by (simp add: table_ok_def empty_db_def max_rowid_def)
  have ids: "created_ids empty_db [AddExpense \<lparr>year = 2024, month = 2, day = 3\<rparr> ''Bus''
      (Finite 2) ''Transport'', AddExpense \<lparr>year = 2024, month = 2, day = 3\<rparr> ''Coffee'' (Finite
      (9 / 2)) ''Food'', DeleteExpense 2, AddExpense \<lparr>year = 2024, month = 2, day = 3\<rparr> ''Tea''
      (Finite 3) ''Food''] = [1, 2, 3]"
    by (simp add: add_expense_def delete_expense_def sql_insert_def sql_delete_def
        largest_rowid_def empty_db_def max_rowid_def min_rowid_def)
  have "sorted_wrt (<) (created_ids empty_db [AddExpense \<lparr>year = 2024, month = 2, day = 3\<rparr>
      ''Bus'' (Finite 2) ''Transport'', AddExpense \<lparr>year = 2024, month = 2, day = 3\<rparr> ''Coffee''
      (Finite (9 / 2)) ''Food'', DeleteExpense 2, AddExpense \<lparr>year = 2024, month = 2, day = 3\<rparr>
      ''Tea'' (Finite 3) ''Food''])"
    using C5_ids_increase [of empty_db "[AddExpense \<lparr>year = 2024, month = 2, day = 3\<rparr>
        ''Bus'' (Finite 2) ''Transport'', AddExpense \<lparr>year = 2024, month = 2, day = 3\<rparr>
        ''Coffee'' (Finite (9 / 2)) ''Food'', DeleteExpense 2, AddExpense \<lparr>year = 2024, month =
        2, day = 3\<rparr> ''Tea'' (Finite 3) ''Food'']"] by (rule conjunct1)
  with ok ids show ?thesis
    by (intro conjI)
qed

subsection \<open>What the calls preserve\<close>

lemma table_ok_empty: "table_ok empty_db"
  by (simp add: table_ok_def empty_db_def max_rowid_def)

lemma fold_max_le: "\<forall>x \<in> set xs. x \<le> (s::int) \<Longrightarrow> fold max xs s = s"
  by (induction xs) (auto simp: max_def)

lemma table_ok_largest: "table_ok db \<Longrightarrow> largest_rowid db = sqlite_sequence db"
  by (simp add: table_ok_def largest_rowid_def list_all_iff fold_max_le)

lemma table_ok_add:
  assumes "table_ok db" and "add_expense db now t a c = (db', res)"
  shows "table_ok db'"
proof (cases "max_rowid \<le> sqlite_sequence db")
  case True
  with assms table_ok_largest [OF assms(1)] show ?thesis
    by (simp add: add_expense_def sql_insert_def)
next
  case False
  with assms(2) table_ok_largest [OF assms(1)]
  have db': "db' = \<lparr>expenses = expenses db @
                 [\<lparr>expense_id = sqlite_sequence db + 1, title = t, amount = bind_real a,
                   category = c, date = strftime_Ymd now\<rparr>],
               sqlite_sequence = sqlite_sequence db + 1\<rparr>"
    by (auto simp: add_expense_def sql_insert_def Let_def)
  show ?thesis
    using assms(1) False unfolding db' table_ok_def
    by (auto simp: sorted_wrt_append list_all_iff)
qed

lemma table_ok_delete:
  assumes "table_ok db" and "delete_expense db i = (db', res)"
  shows "table_ok db'"
  using assms
  by (auto simp: delete_expense_def sql_delete_def table_ok_def list_all_iff sorted_wrt_map
      sorted_wrt_filter split: if_splits)

lemma table_ok_step:
  assumes "table_ok db" and "step db c = (db', res)"
  shows "table_ok db'"
  using assms by (cases c) (auto intro: table_ok_add table_ok_delete)

lemma unique_row:
  assumes "sorted_wrt (<) (map expense_id xs)" and "r \<in> set xs"
  shows "filter (\<lambda>x. expense_id x = expense_id r) xs = [r]"
  using assms
proof (induction xs)
  case Nil
  then show ?case by simp
next
  case (Cons x xs)
  show ?case
  proof (cases "r = x")
    case True
    have "filter (\<lambda>y. expense_id y = expense_id x) xs = []"
      using Cons.prems(1) by (auto simp: filter_empty_conv)
    with True show ?thesis by simp
  next
    case False
    with Cons.prems have "r \<in> set xs" and "expense_id x < expense_id r"
      by auto
    with Cons show ?thesis by auto
  qed
qed

lemma step_keeps_record:
  assumes "step db c = (db', res)" and "r \<in> set (expenses db)"
    and "c \<noteq> DeleteExpense (expense_id r)"
  shows "r \<in> set (expenses db') \<and>
         (table_ok db \<longrightarrow> filter (\<lambda>x. expense_id x = expense_id r) (expenses db') = [r])"
proof -
  have kept: "r \<in> set (expenses db')"
  proof (cases c)
    case Index
    with assms show ?thesis by simp
  next
    case (AddExpense now t a b)
    with assms show ?thesis
      by (auto simp: add_expense_def sql_insert_def Let_def split: if_splits)
  next
    case (DeleteExpense i)
    with assms show ?thesis
      by (auto simp: delete_expense_def sql_delete_def split: if_splits)
  qed
  moreover have "filter (\<lambda>x. expense_id x = expense_id r) (expenses db') = [r]" if "table_ok db"
  proof -
    have "table_ok db'"
      using that assms(1) by (rule table_ok_step)
    then have "sorted_wrt (<) (map expense_id (expenses db'))"
      by (simp add: table_ok_def)
    then show ?thesis
      using kept by (rule unique_row)
  qed
  ultimately show ?thesis
    by blast
qed

text \<open>
  C8. There are three handlers and none updates a row. Over any sequence of calls that does
  not delete the id of a record of the table, that record is still in the table at the
  end, with every field as it was, and no other row of its id stands beside it.
\<close>

theorem C8_records_unchanged:
  assumes "r \<in> set (expenses db)" and "DeleteExpense (expense_id r) \<notin> set cs"
  shows "r \<in> set (expenses (run db cs)) \<and>
         (table_ok db \<longrightarrow>
            filter (\<lambda>x. expense_id x = expense_id r) (expenses (run db cs)) = [r])"
  using assms
proof (induction cs arbitrary: db)
  case Nil
  then show ?case
    by (auto simp: table_ok_def intro: unique_row)
next
  case (Cons c cs)
  obtain db' res where s: "step db c = (db', res)"
    by (cases "step db c")
  have c: "c \<noteq> DeleteExpense (expense_id r)"
    using Cons.prems(2) by auto
  have kept: "r \<in> set (expenses db')"
    using step_keeps_record [OF s Cons.prems(1) c] by (rule conjunct1)
  have rest: "DeleteExpense (expense_id r) \<notin> set cs"
    using Cons.prems(2) by simp
  have ok: "table_ok db'" if "table_ok db"
    using that s by (rule table_ok_step)
  show ?case
    using Cons.IH [OF kept rest] s ok by auto
qed

theorem C8_records_unchanged_witness:
  "row_bus \<in> set (expenses two_rows) \<and>
   DeleteExpense (expense_id row_bus) \<notin>
     set [Index,
        AddExpense \<lparr>year = 2024, month = 2, day = 3\<rparr> ''Tea'' (Finite 3) ''Food'',
        DeleteExpense 2] \<and>
   run two_rows
       [Index,
        AddExpense \<lparr>year = 2024, month = 2, day = 3\<rparr> ''Tea'' (Finite 3) ''Food'',
        DeleteExpense 2] = bus_and_tea \<and>
   row_bus \<in> set (expenses (run two_rows
       [Index,
        AddExpense \<lparr>year = 2024, month = 2, day = 3\<rparr> ''Tea'' (Finite 3) ''Food'',
        DeleteExpense 2]))"
proof -
  have mem: "row_bus \<in> set (expenses two_rows)"
    by (simp add: two_rows_def bus_and_tea_def)
  have other: "DeleteExpense (expense_id row_bus) \<notin>
      set [Index,
        AddExpense \<lparr>year = 2024, month = 2, day = 3\<rparr> ''Tea'' (Finite 3) ''Food'',
        DeleteExpense 2]"
    by (simp add: row_bus_def row_coffee_def row_tea_def)
  have ran: "run two_rows
       [Index,
        AddExpense \<lparr>year = 2024, month = 2, day = 3\<rparr> ''Tea'' (Finite 3) ''Food'',
        DeleteExpense 2] = bus_and_tea"
    by (simp add: two_rows_def bus_and_tea_def row_bus_def row_coffee_def row_tea_def
        add_expense_def delete_expense_def sql_insert_def sql_delete_def
        largest_rowid_def max_rowid_def min_rowid_def bind_real_def strftime_3_February)
  have "row_bus \<in> set (expenses (run two_rows
       [Index,
        AddExpense \<lparr>year = 2024, month = 2, day = 3\<rparr> ''Tea'' (Finite 3) ''Food'',
        DeleteExpense 2]))"
    using C8_records_unchanged [OF mem other] by (rule conjunct1)
  with mem other ran show ?thesis
    by (intro conjI)
qed

text \<open>
  C4. Binding the id to the statement restricts it to the 64-bit integers of SQLite: outside
  that range the delete handler raises \<open>OverflowError\<close> and the table is untouched. For
  every id within the range, deleting an id that no record has succeeds (the 303 redirect)
  and leaves the table as it was; and deleting any id twice succeeds both times, the second
  call changing nothing.
\<close>

theorem C4_delete_absent_is_noop:
  "(min_rowid \<le> i \<and> i \<le> max_rowid \<and> list_all (\<lambda>r. expense_id r \<noteq> i) (expenses db) \<longrightarrow>
      delete_expense db i = (db, Inr (RedirectResponse ''/'' 303))) \<and>
   (min_rowid \<le> i \<and> i \<le> max_rowid \<longrightarrow>
      (\<exists>db'. delete_expense db i = (db', Inr (RedirectResponse ''/'' 303)) \<and>
             delete_expense db' i = (db', Inr (RedirectResponse ''/'' 303)))) \<and>
   (i < min_rowid \<or> max_rowid < i \<longrightarrow> delete_expense db i = (db, Inl OverflowError))"
proof -
  have same: "filter (\<lambda>e. expense_id e \<noteq> i) xs = xs" if "list_all (\<lambda>r. expense_id r \<noteq> i) xs" for xs
    using that by (simp add: list_all_iff)
  show ?thesis
    by (auto simp: delete_expense_def sql_delete_def same)
qed

theorem C4_delete_absent_is_noop_witness:
  "min_rowid \<le> 9999 \<and> 9999 \<le> max_rowid \<and>
   list_all (\<lambda>r. expense_id r \<noteq> 9999) (expenses two_rows) \<and>
   delete_expense two_rows 9999 = (two_rows, Inr (RedirectResponse ''/'' 303))"
proof -
  have a: "min_rowid \<le> 9999" and b: "9999 \<le> max_rowid"
    by (simp_all add: min_rowid_def max_rowid_def)
  have c: "list_all (\<lambda>r. expense_id r \<noteq> 9999) (expenses two_rows)"
    by (simp add: two_rows_def row_bus_def row_coffee_def)
  have "delete_expense two_rows 9999 = (two_rows, Inr (RedirectResponse ''/'' 303))"
    using C4_delete_absent_is_noop [of 9999 two_rows] a b c by blast
  with a b c show ?thesis
    by (intro conjI)
qed

theorem C4_delete_out_of_range_counterexample:
  "expenses empty_db = [] \<and>
   delete_expense empty_db 9223372036854775808 = (empty_db, Inl OverflowError)"
  by (simp add: delete_expense_def sql_delete_def empty_db_def min_rowid_def max_rowid_def)

subsection \<open>Validation and the title\<close>

text \<open>
  C3. A create request in which the framework finds a required field missing, or in which
  the text of \<open>amount\<close> does not convert to a float, and a delete request whose path
  parameter does not convert to an int, are answered with the client error 422 and the
  table is the table before the request. Requests that pass this check reach the handler
  with the converted values; nothing else is checked.
\<close>

theorem C3_validation_rejects:
  "(form_title f = None \<or> form_amount f = None \<or> form_category f = None \<or>
      (\<exists>a. form_amount f = Some a \<and> float_of a = None) \<longrightarrow>
      post_add float_of db now f = (db, Unprocessable)) \<and>
   (int_of p = None \<longrightarrow> get_delete int_of db p = (db, Unprocessable)) \<and>
   status_code Unprocessable = 422 \<and>
   (form_title f = Some t \<and> form_amount f = Some a \<and> form_category f = Some c \<and>
      float_of a = Some x \<longrightarrow>
      post_add float_of db now f =
        (fst (add_expense db now t x c), Served (snd (add_expense db now t x c)))) \<and>
   (int_of p = Some i \<longrightarrow>
      get_delete int_of db p = (fst (delete_expense db i), Served (snd (delete_expense db i))))"
  by (auto simp: post_add_def get_delete_def split: option.splits prod.splits)

theorem C3_validation_rejects_witness:
  "form_amount \<lparr>form_title = Some ''Coffee'', form_amount = Some ''abc'', form_category =
      Some ''Food''\<rparr> = Some ''abc'' \<and> (\<lambda>s. if s = ''4.50'' then Some (Finite (9 / 2)) else None)
      ''abc'' = None \<and>
   post_add (\<lambda>s. if s = ''4.50'' then Some (Finite (9 / 2)) else None) empty_db \<lparr>year =
       2024, month = 2, day = 3\<rparr> \<lparr>form_title = Some ''Coffee'', form_amount = Some ''abc'',
       form_category = Some ''Food''\<rparr> = (empty_db, Unprocessable) \<and>
   status_code (snd (post_add (\<lambda>s. if s = ''4.50'' then Some (Finite (9 / 2)) else None)
       empty_db \<lparr>year = 2024, month = 2, day = 3\<rparr> \<lparr>form_title = Some ''Coffee'', form_amount =
       Some ''abc'', form_category = Some ''Food''\<rparr>)) = 422"
proof -
  have a: "form_amount \<lparr>form_title = Some ''Coffee'', form_amount = Some ''abc'',
      form_category = Some ''Food''\<rparr> = Some ''abc''"
    by simp
  have b: "(\<lambda>s. if s = ''4.50'' then Some (Finite (9 / 2)) else None) ''abc'' = None"
    by simp
  have c: "post_add (\<lambda>s. if s = ''4.50'' then Some (Finite (9 / 2)) else None) empty_db
      \<lparr>year = 2024, month = 2, day = 3\<rparr> \<lparr>form_title = Some ''Coffee'', form_amount = Some
      ''abc'', form_category = Some ''Food''\<rparr> = (empty_db, Unprocessable)"
    using C3_validation_rejects [of "\<lparr>form_title = Some ''Coffee'', form_amount = Some
        ''abc'', form_category = Some ''Food''\<rparr>" "(\<lambda>s. if s = ''4.50'' then Some (Finite (9 /
        2)) else None)" empty_db "\<lparr>year = 2024, month = 2, day = 3\<rparr>"] a b by blast
  then have "status_code (snd (post_add (\<lambda>s. if s = ''4.50'' then Some (Finite (9 / 2)) else
      None) empty_db \<lparr>year = 2024, month = 2, day = 3\<rparr> \<lparr>form_title = Some ''Coffee'',
      form_amount = Some ''abc'', form_category = Some ''Food''\<rparr>)) = 422"
    by simp
  with a b c show ?thesis
    by (intro conjI)
qed



subsection \<open>The total\<close>











subsection \<open>Deleting a record\<close>










subsection \<open>Amounts that are not numbers\<close>

lemma py_sum_TypeError: "py_sum acc xs = Inl e \<longleftrightarrow> e = TypeError \<and> None \<in> set xs"
  by (induction acc xs rule: py_sum.induct) auto

lemma index_TypeError_iff:
  "index db = Inl TypeError \<longleftrightarrow> (\<exists>r \<in> set (expenses db). amount r = None)"
proof -
  let ?xs = "map amount (sql_select_order_by_date_desc db)"
  have mem: "set (sql_select_order_by_date_desc db) = set (expenses db)"
    using mset_select [of db] by (metis set_mset_mset)
  have "index db = Inl TypeError \<longleftrightarrow> py_sum (Finite 0) ?xs = Inl TypeError"
    by (simp add: index_def Let_def split: sum.splits)
  also have "\<dots> \<longleftrightarrow> None \<in> set ?xs"
    by (simp only: py_sum_TypeError simp_thms)
  also have "\<dots> \<longleftrightarrow> (\<exists>r \<in> set (expenses db). amount r = None)"
    unfolding mem [symmetric] by (force simp: image_iff)
  finally show ?thesis .
qed

text \<open>
  The listing fails exactly on a \<open>NULL\<close> amount: \<open>index\<close> raises \<open>TypeError\<close> (a server
  error) if and only if some record of the table has no amount.
\<close>

theorem index_fails_on_null_amount:
  "index db = Inl TypeError \<longleftrightarrow> (\<exists>r \<in> set (expenses db). amount r = None)"
  by (rule index_TypeError_iff)

text \<open>
  A create whose amount is the float NaN stores \<open>NULL\<close>, and from then on the listing
  fails: after such a call \<open>index\<close> raises \<open>TypeError\<close>.
\<close>

theorem nan_amount_breaks_listing:
  assumes "largest_rowid db < max_rowid"
  shows "index (fst (add_expense db now t NaN c)) = Inl TypeError"
proof -
  have "\<exists>r \<in> set (expenses (fst (add_expense db now t NaN c))). amount r = None"
    using assms by (simp add: add_expense_def sql_insert_def Let_def bind_real_def)
  then show ?thesis
    by (simp add: index_TypeError_iff)
qed

theorem nan_amount_breaks_listing_witness:
  "largest_rowid empty_db < max_rowid \<and>
   index (fst (add_expense empty_db \<lparr>year = 2024, month = 2, day = 3\<rparr> ''Tea'' NaN ''Food''))
     = Inl TypeError"
proof -
  have room: "largest_rowid empty_db < max_rowid"
    by (simp add: largest_rowid_def empty_db_def max_rowid_def)
  from nan_amount_breaks_listing [OF room] room show ?thesis
    by (intro conjI)
qed

end
